theory Spec2Isabelle
  imports Complex_Main "HOL-Library.Multiset"
begin

section \<open>The evaluation engine of \<^verbatim>\<open>modules/finances_core.py\<close>\<close>

text \<open>
  Python floats are idealised as real numbers: rounding and overflow are outside this
  development, every other step of the source is kept. Where the source divides by a
  power of \<open>1 + rate\<close> that is zero, HOL's total division would silently give \<open>0\<close>, so
  each such place is written out: plain Python raises \<^verbatim>\<open>ZeroDivisionError\<close>, numpy
  yields \<^verbatim>\<open>inf\<close> or \<^verbatim>\<open>nan\<close>.
\<close>

datatype error = ZeroDivisionError | IndexError | ValueError

subsection \<open>VAN (NPV)\<close>

definition discounted :: "real \<Rightarrow> real list \<Rightarrow> real" where
  \<comment> \<open>\<^verbatim>\<open>sum(cf / (1 + rate) ** i for i, cf in enumerate(cashflows))\<close>\<close>
  "discounted rate cashflows = (\<Sum>(i, cf) \<leftarrow> enumerate 0 cashflows. cf / (1 + rate) ^ i)"

definition zero_divisor :: "real \<Rightarrow> nat \<Rightarrow> nat \<Rightarrow> bool" where
  \<comment> \<open>some exponent \<open>k + i\<close> with \<open>i < n\<close> makes the divisor \<open>(1 + rate) ** (k + i)\<close> zero\<close>
  "zero_divisor rate k n = list_ex (\<lambda>i. (1 + rate) ^ (k + i) = 0) [0..<n]"

definition npv :: "real \<Rightarrow> real list \<Rightarrow> error + real" where
  "npv rate cashflows =
     (if zero_divisor rate 0 (length cashflows) then Inl ZeroDivisionError
      else Inr (discounted rate cashflows))"

text \<open>
  The same function on numpy floats, where a division by zero gives \<^verbatim>\<open>inf\<close> or
  \<^verbatim>\<open>nan\<close> (and a warning) instead of raising: \<open>Some x\<close> is the finite value \<open>x\<close>,
  \<open>None\<close> is \<^verbatim>\<open>inf\<close> or \<^verbatim>\<open>nan\<close>. This is \<^verbatim>\<open>npv\<close> as the simulation calls it, on
  a numpy array, and as the profile calls it, at a numpy rate.
\<close>

type_synonym npfloat = "real option"

definition npv_np :: "real \<Rightarrow> real list \<Rightarrow> npfloat" where
  "npv_np rate cashflows =
     (if zero_divisor rate 0 (length cashflows) then None
      else Some (discounted rate cashflows))"

subsection \<open>TIR (IRR): Newton with a bisection fallback\<close>

definition irr_f :: "real list \<Rightarrow> real \<Rightarrow> real" where
  \<comment> \<open>the nested function \<^verbatim>\<open>f\<close> of \<^verbatim>\<open>irr\<close>\<close>
  "irr_f cf r = (\<Sum>(p, c) \<leftarrow> enumerate 0 cf. c / (1 + r) ^ p)"

definition irr_fprime :: "real list \<Rightarrow> real \<Rightarrow> real" where
  \<comment> \<open>the nested function \<^verbatim>\<open>fprime\<close> of \<^verbatim>\<open>irr\<close>\<close>
  "irr_fprime cf r = (\<Sum>(p, c) \<leftarrow> enumerate 0 cf. - real p * c / (1 + r) ^ (p + 1))"

text \<open>
  The Newton loop, \<open>None\<close> when it ends without returning (a \<^verbatim>\<open>break\<close> or the iteration
  budget). The two \<open>zero_divisor\<close> branches are the numpy divisions by zero: \<^verbatim>\<open>f(r)\<close> or
  \<^verbatim>\<open>fprime(r)\<close> is then \<^verbatim>\<open>inf\<close> or \<^verbatim>\<open>nan\<close>, no comparison of the loop body
  holds, \<^verbatim>\<open>r\<close> becomes \<^verbatim>\<open>nan\<close> and no later iteration returns. Nothing in the
  loop body raises (the only plain division, \<^verbatim>\<open>fr / fpr\<close>, comes after the test on
  \<^verbatim>\<open>fpr\<close>), so the \<^verbatim>\<open>except\<close> branch has no counterpart here.
\<close>

fun newton :: "real list \<Rightarrow> real \<Rightarrow> nat \<Rightarrow> real \<Rightarrow> real option" where
  "newton cf tol 0 r = None"
| "newton cf tol (Suc k) r =
     (if zero_divisor r 0 (length cf) then None
      else let fr = irr_f cf r in
        if \<bar>fr\<bar> < tol then Some r
        else if zero_divisor r 1 (length cf) then None
        else let fpr = irr_fprime cf r in
          if \<bar>fpr\<bar> < 1 / 10 ^ 12 then None
          else let r_new = r - fr / fpr in
            if r_new \<le> - 0.999999 then None
            else newton cf tol k r_new)"

definition linspace :: "real \<Rightarrow> real \<Rightarrow> nat \<Rightarrow> real list" where
  \<comment> \<open>\<^verbatim>\<open>np.linspace(start, stop, num)\<close>: \<open>num\<close> evenly spaced points, both ends included\<close>
  "linspace start stop num =
     map (\<lambda>i. start + real i * ((stop - start) / real (num - 1))) [0..<num]"

definition lows :: "real list" where
  "lows = linspace (- 0.9999) (- 0.1) 200 @ linspace (- 0.05) 5.0 2000"

datatype scan_result = Zero_at real | Sign_changes "(real \<times> real) list"

text \<open>
  The scan \<^verbatim>\<open>for i in range(len(vals) - 1)\<close> over the grid and its values, with the
  brackets collected so far. Every grid rate is above \<open>-1\<close>, so neither the scan nor
  the bisection divides by zero.
\<close>

fun scan :: "real list \<Rightarrow> real list \<Rightarrow> (real \<times> real) list \<Rightarrow> scan_result" where
  "scan (x # x' # xs) (v # v' # vs) sign_changes =
     (if v = 0 then Zero_at x
      else scan (x' # xs) (v' # vs)
             (if v * v' < 0 then sign_changes @ [(x, x')] else sign_changes))"
| "scan xs vs sign_changes = Sign_changes sign_changes"

text \<open>
  The bisection loop with its remaining iterations; \<^verbatim>\<open>fb\<close> is assigned in the source
  but never read, so it is not carried.
\<close>

fun bisect :: "(real \<Rightarrow> real) \<Rightarrow> real \<Rightarrow> nat \<Rightarrow> real \<Rightarrow> real \<Rightarrow> real \<Rightarrow> real" where
  "bisect g tol 0 a b fa = (a + b) / 2"
| "bisect g tol (Suc k) a b fa =
     (let m = (a + b) / 2; fm = g m in
      if \<bar>fm\<bar> < tol then m
      else if fa * fm < 0 then bisect g tol k a m fa
      else bisect g tol k m b fm)"

definition fallback :: "real list \<Rightarrow> real \<Rightarrow> real option" where
  "fallback cf tol =
     (let vals = map (irr_f cf) lows in
      case scan lows vals [] of
        Zero_at x \<Rightarrow> Some x
      | Sign_changes [] \<Rightarrow> None
      | Sign_changes ((a, b) # _) \<Rightarrow> Some (bisect (irr_f cf) tol 100 a b (irr_f cf a)))"

definition irr :: "real list \<Rightarrow> real \<Rightarrow> real \<Rightarrow> int \<Rightarrow> real option" where
  "irr cashflows guess tol maxiter =
     (case newton cashflows tol (nat maxiter) guess of
        Some r \<Rightarrow> Some r
      | None \<Rightarrow> fallback cashflows tol)"

subsection \<open>B/C ratio (benefits / costs)\<close>

definition bind_r :: "error + 'a \<Rightarrow> ('a \<Rightarrow> error + 'b) \<Rightarrow> error + 'b" where
  \<comment> \<open>sequencing of two steps, the first exception raised ends the call\<close>
  "bind_r x k = (case x of Inl e \<Rightarrow> Inl e | Inr v \<Rightarrow> k v)"

definition benefit_cost_ratio :: "real list \<Rightarrow> real \<Rightarrow> error + real option" where
  "benefit_cost_ratio cashflows rate =
     (let benefits = map (\<lambda>cf. if cf > 0 then cf else 0) cashflows;
          costs = map (\<lambda>cf. if cf < 0 then - cf else 0) cashflows
      in bind_r (npv rate benefits) (\<lambda>pv_b.
         bind_r (npv rate costs) (\<lambda>pv_c.
           if \<bar>pv_c\<bar> < 1 / 10 ^ 12 then Inr None else Inr (Some (pv_b / pv_c)))))"

subsection \<open>Perfil de VAN en una grilla de TMAR\<close>

definition npv_profile :: "real list \<Rightarrow> real list \<Rightarrow> (real \<times> npfloat) list" where
  \<comment> \<open>the grid that \<^verbatim>\<open>evaluate_project\<close> passes is a list of numpy floats\<close>
  "npv_profile cashflows tmar_grid = map (\<lambda>t. (t, npv_np t cashflows)) tmar_grid"

subsection \<open>Monte Carlo NPV (riesgo)\<close>

text \<open>
  The random source is numpy's global generator, of which the source uses two
  operations: \<^verbatim>\<open>np.random.seed(seed)\<close>, which replaces the generator state by one that
  depends on the seed only, or raises on a seed it does not accept, and
  \<^verbatim>\<open>np.random.normal(loc, scale, size)\<close>, which draws \<open>size\<close> values, moves the state
  on and may raise. They are parameters of the model; the state of the generator is
  passed through every call. (\<^verbatim>\<open>random.seed(seed)\<close> seeds Python's own generator,
  which the engine never draws from.)
\<close>

record 'g rng =
  seed_state :: "int \<Rightarrow> error + 'g"
  normal :: "real \<Rightarrow> real \<Rightarrow> nat \<Rightarrow> 'g \<Rightarrow> error + (real list \<times> 'g)"

definition draw_shocks :: "'g rng \<Rightarrow> real list \<Rightarrow> real \<Rightarrow> 'g \<Rightarrow> error + (real list \<times> 'g)" where
  \<comment> \<open>\<^verbatim>\<open>shocks = np.ones_like(base)\<close>, then \<^verbatim>\<open>shocks[1:]\<close> overwritten when there are later periods\<close>
  "draw_shocks R base sigma g =
     (if length base > 1 then
        bind_r (normal R 1.0 sigma (length base - 1) g) (\<lambda>(draws, g'). Inr (1 # draws, g'))
      else Inr (replicate (length base) 1, g))"

fun simulate :: "'g rng \<Rightarrow> real list \<Rightarrow> real \<Rightarrow> real \<Rightarrow> nat \<Rightarrow> 'g \<Rightarrow> error + (npfloat list \<times> 'g)" where
  "simulate R base rate sigma 0 g = Inr ([], g)"
| "simulate R base rate sigma (Suc k) g =
     bind_r (draw_shocks R base sigma g) (\<lambda>(shocks, g').
       let scenario = map2 (*) base shocks;
           v = npv_np rate scenario
       in bind_r (simulate R base rate sigma k g') (\<lambda>(sims, g''). Inr (v # sims, g'')))"

definition np_mean :: "npfloat list \<Rightarrow> npfloat" where
  \<comment> \<open>\<^verbatim>\<open>sims.mean()\<close>; \<^verbatim>\<open>nan\<close> (with a warning) on an empty array\<close>
  "np_mean xs =
     (case those xs of
        None \<Rightarrow> None
      | Some ys \<Rightarrow> if ys = [] then None else Some (sum_list ys / real (length ys)))"

definition np_std :: "npfloat list \<Rightarrow> npfloat" where
  \<comment> \<open>\<^verbatim>\<open>sims.std()\<close>: the root of the mean squared deviation from the mean\<close>
  "np_std xs =
     (case those xs of
        None \<Rightarrow> None
      | Some ys \<Rightarrow>
          if ys = [] then None
          else let m = sum_list ys / real (length ys)
               in Some (sqrt (sum_list (map (\<lambda>y. (y - m)\<^sup>2) ys) / real (length ys))))"

definition interpolate :: "real list \<Rightarrow> real \<Rightarrow> real" where
  \<comment> \<open>linear interpolation in a sorted, non-empty list at the virtual index \<open>h\<close>\<close>
  "interpolate s h =
     (let lo = nat \<lfloor>h\<rfloor>; hi = min (lo + 1) (length s - 1)
      in s ! lo + (h - real lo) * (s ! hi - s ! lo))"

definition percentile :: "npfloat list \<Rightarrow> real \<Rightarrow> error + npfloat" where
  \<comment> \<open>\<^verbatim>\<open>np.percentile(sims, q)\<close>, method \<^verbatim>\<open>linear\<close>, for \<open>0 \<le> q \<le> 100\<close>; indexing an empty
      array raises \<^verbatim>\<open>IndexError\<close>\<close>
  "percentile xs q =
     (if xs = [] then Inl IndexError
      else case those xs of
        None \<Rightarrow> Inr None
      | Some ys \<Rightarrow> Inr (Some (interpolate (sort ys) (real (length ys - 1) * q / 100))))"

record summary =
  mc_n_sim :: int
  mc_mean :: npfloat
  mc_std :: npfloat
  mc_p5 :: npfloat
  mc_p25 :: npfloat
  mc_p50 :: npfloat
  mc_p75 :: npfloat
  mc_p95 :: npfloat
  mc_samples :: "npfloat list"

definition monte_carlo_npv ::
  "'g rng \<Rightarrow> real list \<Rightarrow> real \<Rightarrow> int \<Rightarrow> real \<Rightarrow> int option \<Rightarrow> 'g \<Rightarrow> error + (summary \<times> 'g)" where
  "monte_carlo_npv R cashflows rate n_sim sigma seed g =
     bind_r (case seed of None \<Rightarrow> Inr g | Some s \<Rightarrow> seed_state R s) (\<lambda>g0.
       bind_r (simulate R cashflows rate sigma (nat n_sim) g0) (\<lambda>(sims, g1).
         bind_r (percentile sims 5) (\<lambda>p5.
         bind_r (percentile sims 25) (\<lambda>p25.
         bind_r (percentile sims 50) (\<lambda>p50.
         bind_r (percentile sims 75) (\<lambda>p75.
         bind_r (percentile sims 95) (\<lambda>p95.
           Inr (\<lparr>mc_n_sim = n_sim, mc_mean = np_mean sims, mc_std = np_std sims,
                 mc_p5 = p5, mc_p25 = p25, mc_p50 = p50, mc_p75 = p75, mc_p95 = p95,
                 mc_samples = sims\<rparr>, g1))))))))"

subsection \<open>API de evaluacion\<close>

record report =
  out_cashflows :: "real list"
  out_tmar :: real
  out_van :: real
  out_tir :: "real option"
  out_b_c :: "real option"
  out_npv_profile :: "(real \<times> npfloat) list"
  out_montecarlo :: "summary option"

definition evaluate_project ::
  "'g rng \<Rightarrow> real list \<Rightarrow> real \<Rightarrow> bool \<Rightarrow> int \<Rightarrow> real \<Rightarrow> int option \<Rightarrow> 'g \<Rightarrow> error + (report \<times> 'g)" where
  "evaluate_project R cashflows tmar montecarlo mc_nsim mc_sigma mc_seed g =
     bind_r (npv tmar cashflows) (\<lambda>van_val.
       let tir_val = irr cashflows 0.1 (1 / 10 ^ 8) 200 in
       bind_r (benefit_cost_ratio cashflows tmar) (\<lambda>bc_val.
         let tgrid = linspace (max 0.0 (tmar - 0.2)) (tmar + 0.2) 41;
             out = \<lparr>out_cashflows = cashflows, out_tmar = tmar, out_van = van_val,
                    out_tir = tir_val, out_b_c = bc_val,
                    out_npv_profile = npv_profile cashflows tgrid,
                    out_montecarlo = None\<rparr>
         in if montecarlo then
              bind_r (monte_carlo_npv R cashflows tmar mc_nsim mc_sigma mc_seed g) (\<lambda>(mc, g').
                Inr (out\<lparr>out_montecarlo := Some mc\<rparr>, g'))
            else Inr (out, g)))"

subsection \<open>Comparacion multicriterio simple\<close>

record project =
  p_name :: "string option"
  p_metrics :: "string \<rightharpoonup> real option"

record entry =
  name :: string
  van :: real
  tir :: real
  b_c :: real
  score :: real

definition metric :: "project \<Rightarrow> string \<Rightarrow> real" where
  \<comment> \<open>\<^verbatim>\<open>p["metrics"].get(key, 0) or 0\<close>: a missing key and a \<^verbatim>\<open>None\<close> both count as 0\<close>
  "metric p key = (case p_metrics p key of Some (Some v) \<Rightarrow> v | _ \<Rightarrow> 0)"

definition safe_normalize :: "real list \<Rightarrow> error + real list" where
  \<comment> \<open>\<^verbatim>\<open>arr.max()\<close> of an empty array raises \<^verbatim>\<open>ValueError\<close>\<close>
  "safe_normalize arr =
     (if arr = [] then Inl ValueError
      else if Max (set arr) = Min (set arr) then Inr (map (\<lambda>_. 0) arr)
      else Inr (map (\<lambda>x. (x - Min (set arr)) / (Max (set arr) - Min (set arr))) arr))"

fun str_nat :: "nat \<Rightarrow> string" where
  \<comment> \<open>the decimal digits of a number, as an f-string formats it\<close>
  "str_nat n =
     (if n < 10 then [''0123456789'' ! n]
      else str_nat (n div 10) @ [''0123456789'' ! (n mod 10)])"

definition weight :: "(string \<rightharpoonup> real) \<Rightarrow> string \<Rightarrow> real" where
  \<comment> \<open>\<^verbatim>\<open>weights.get(key, 0)\<close>\<close>
  "weight weights key = (case weights key of Some w \<Rightarrow> w | None \<Rightarrow> 0)"

definition default_weights :: "string \<rightharpoonup> real" where
  "default_weights = [''van'' \<mapsto> 0.5, ''tir'' \<mapsto> 0.3, ''b_c'' \<mapsto> 0.2]"

definition score_entry ::
  "(string \<rightharpoonup> real) \<Rightarrow> real list \<Rightarrow> real list \<Rightarrow> real list \<Rightarrow> real list \<Rightarrow> real list \<Rightarrow> real list
     \<Rightarrow> nat \<times> project \<Rightarrow> entry" where
  \<comment> \<open>the body of the loop \<^verbatim>\<open>for i, p in enumerate(projects)\<close>\<close>
  "score_entry weights vans tirs bcs nv nt nb = (\<lambda>(i, p).
     \<lparr>name = (case p_name p of Some s \<Rightarrow> s | None \<Rightarrow> ''proj_'' @ str_nat i),
      van = vans ! i, tir = tirs ! i, b_c = bcs ! i,
      score = weight weights ''van'' * nv ! i + weight weights ''tir'' * nt ! i
              + weight weights ''b_c'' * nb ! i\<rparr>)"

definition compare_projects :: "project list \<Rightarrow> (string \<rightharpoonup> real) option \<Rightarrow> error + entry list" where
  \<comment> \<open>\<^verbatim>\<open>scores.sort(key=..., reverse=True)\<close> is a stable sort by descending score\<close>
  "compare_projects projects weights_opt =
     (let weights = (case weights_opt of None \<Rightarrow> default_weights | Some w \<Rightarrow> w);
          vans = map (\<lambda>p. metric p ''van'') projects;
          tirs = map (\<lambda>p. metric p ''tir'') projects;
          bcs = map (\<lambda>p. metric p ''b_c'') projects
      in bind_r (safe_normalize vans) (\<lambda>nv.
         bind_r (safe_normalize tirs) (\<lambda>nt.
         bind_r (safe_normalize bcs) (\<lambda>nb.
           let scores = map (score_entry weights vans tirs bcs nv nt nb) (enumerate 0 projects)
           in Inr (sort_key (\<lambda>x. - score x) scores)))))"

subsection \<open>A generator for concrete runs\<close>

text \<open>
  A deterministic stand-in for numpy's generator, used where the model is run on a
  concrete input: its state counts the calls, seeding sets the state to the seed
  (negative seeds are refused), and every draw is \<open>loc + scale * state\<close>.
\<close>

definition counting_rng :: "int rng" where
  "counting_rng =
     \<lparr>seed_state = (\<lambda>s. if 0 \<le> s then Inr s else Inl ValueError),
      normal = (\<lambda>loc scale size g. Inr (replicate size (loc + scale * real_of_int g), g + 1))\<rparr>"

subsection \<open>The ranking as the specification words it\<close>

text \<open>
  Min-max normalisation of one value within a collection, and the entry the
  specification expects for the project at position \<open>i\<close>: its three metrics (absent
  ones as 0) and the weighted sum of their normalised values. They are stated
  independently of \<open>compare_projects\<close>, to be compared with it.
\<close>

definition minmax :: "real list \<Rightarrow> real \<Rightarrow> real" where
  "minmax xs x =
     (if Max (set xs) = Min (set xs) then 0
      else (x - Min (set xs)) / (Max (set xs) - Min (set xs)))"

definition expected_entry :: "(string \<rightharpoonup> real) \<Rightarrow> project list \<Rightarrow> nat \<Rightarrow> entry" where
  "expected_entry w ps i =
     \<lparr>name = (case p_name (ps ! i) of Some s \<Rightarrow> s | None \<Rightarrow> ''proj_'' @ str_nat i),
      van = metric (ps ! i) ''van'',
      tir = metric (ps ! i) ''tir'',
      b_c = metric (ps ! i) ''b_c'',
      score = weight w ''van'' * minmax (map (\<lambda>p. metric p ''van'') ps) (metric (ps ! i) ''van'')
            + weight w ''tir'' * minmax (map (\<lambda>p. metric p ''tir'') ps) (metric (ps ! i) ''tir'')
            + weight w ''b_c'' * minmax (map (\<lambda>p. metric p ''b_c'') ps) (metric (ps ! i) ''b_c'')\<rparr>"

subsection \<open>The trials as the specification words them\<close>

text \<open>
  One trial as the specification describes it: the period-0 amount is taken as it is,
  every later amount is multiplied by its own draw, and the net value of that
  sequence is collected. A run of trials draws afresh for each (nothing is drawn when
  there is no later period). Stated independently of \<open>simulate\<close>, to be compared
  with it.
\<close>

definition shocked_scenario :: "real list \<Rightarrow> real list \<Rightarrow> real list" where
  "shocked_scenario base draws =
     (case base of [] \<Rightarrow> [] | outlay # later \<Rightarrow> outlay # map2 (*) later draws)"

fun expected_trials ::
  "'g rng \<Rightarrow> real list \<Rightarrow> real \<Rightarrow> real \<Rightarrow> nat \<Rightarrow> 'g \<Rightarrow> error + (npfloat list \<times> 'g)" where
  "expected_trials R base rate sigma 0 g = Inr ([], g)"
| "expected_trials R base rate sigma (Suc k) g =
     bind_r (if length base \<le> 1 then Inr ([], g) else normal R 1.0 sigma (length base - 1) g)
       (\<lambda>(draws, g').
          bind_r (expected_trials R base rate sigma k g') (\<lambda>(rest, g'').
            Inr (npv_np rate (shocked_scenario base draws) # rest, g'')))"

section \<open>Properties\<close>

subsection \<open>The scan grid, the scan and the two loops of the root solver\<close>

lemma zero_divisor_iff: "zero_divisor r k n \<longleftrightarrow> (1 + r = 0 \<and> 0 < n \<and> (0 < k \<or> 1 < n))"
proof -
  have "zero_divisor r k n \<longleftrightarrow> (\<exists>i\<in>{0..<n}. 1 + r = 0 \<and> 0 < k + i)"
    by (simp add: zero_divisor_def list_ex_iff)
  then have "zero_divisor r k n \<longleftrightarrow> (1 + r = 0 \<and> (\<exists>i<n. 0 < k + i))"
    by (metis atLeastLessThan_iff zero_le)
  moreover have "(\<exists>i<n. 0 < k + i) \<longleftrightarrow> (0 < n \<and> (0 < k \<or> 1 < n))"
  proof
    assume "\<exists>i<n. 0 < k + i"
    then obtain i where "i < n" "0 < k + i" by blast
    then show "0 < n \<and> (0 < k \<or> 1 < n)" by (cases "k = 0") auto
  next
    assume h: "0 < n \<and> (0 < k \<or> 1 < n)"
    show "\<exists>i<n. 0 < k + i"
    proof (cases "0 < k")
      case True with h show ?thesis by (intro exI[of _ 0]) simp
    next
      case False with h show ?thesis by (intro exI[of _ 1]) simp
    qed
  qed
  ultimately show ?thesis by simp
qed

lemma newton_gt:
  "newton cf tol k r0 = Some r \<Longrightarrow> - 0.999999 < r0 \<Longrightarrow> - 0.999999 < r"
proof (induction k arbitrary: r0)
  case 0
  then show ?case by simp
next
  case (Suc k)
  then show ?case
    by (auto simp: Let_def split: if_splits)
qed

lemma bisect_between:
  "min a b \<le> bisect g tol k a b fa \<and> bisect g tol k a b fa \<le> max a b"
proof (induction k arbitrary: a b fa)
  case 0
  then show ?case by (simp add: min_def max_def)
next
  case (Suc k)
  define m where "m = (a + b) / 2"
  have m: "min a b \<le> m" "m \<le> max a b" by (simp_all add: m_def min_def max_def)
  have l: "min a b \<le> min a m" "max a m \<le> max a b" "min a b \<le> min m b" "max m b \<le> max a b"
    using m by linarith+
  have 1: "min a b \<le> bisect g tol k a m fa \<and> bisect g tol k a m fa \<le> max a b"
    using Suc.IH[of a m fa] l by linarith
  have 2: "min a b \<le> bisect g tol k m b (g m) \<and> bisect g tol k m b (g m) \<le> max a b"
    using Suc.IH[of m b "g m"] l by linarith
  show ?case using 1 2 m by (simp add: Let_def m_def[symmetric])
qed


lemma length_linspace: "length (linspace a b n) = n"
  by (simp add: linspace_def)

lemma nth_linspace: "i < n \<Longrightarrow> linspace a b n ! i = a + real i * ((b - a) / real (n - 1))"
  by (simp add: linspace_def)

lemma linspace_bounds:
  assumes "a \<le> b" "i < n"
  shows "a \<le> linspace a b n ! i" "linspace a b n ! i \<le> b"
proof -
  have d: "0 \<le> (b - a) / real (n - 1)" using assms by simp
  show "a \<le> linspace a b n ! i"
    using assms d by (simp add: nth_linspace)
  have "real i \<le> real (n - 1)" using assms by simp
  then have "real i * ((b - a) / real (n - 1)) \<le> real (n - 1) * ((b - a) / real (n - 1))"
    using d by (rule mult_right_mono)
  also have "\<dots> \<le> b - a" using assms by (cases "n - 1 = 0") simp_all
  finally show "linspace a b n ! i \<le> b"
    using assms by (simp add: nth_linspace)
qed

lemma linspace_below_stop:
  assumes "a < b" "Suc i < n"
  shows "linspace a b n ! i < b"
proof -
  have d: "0 < (b - a) / real (n - 1)" using assms by simp
  have "real i < real (n - 1)" using assms by simp
  then have "real i * ((b - a) / real (n - 1)) < real (n - 1) * ((b - a) / real (n - 1))"
    using d by (rule mult_strict_right_mono)
  also have "\<dots> = b - a" using assms by simp
  finally show ?thesis using assms by (simp add: nth_linspace)
qed

lemma linspace_last: "1 < n \<Longrightarrow> linspace a b n ! (n - 1) = b"
  by (simp add: nth_linspace)

lemma length_lows: "length lows = 2200"
  by (simp add: lows_def length_linspace)

lemma lows_bounds:
  assumes "i < 2200"
  shows "- 0.9999 \<le> lows ! i \<and> lows ! i \<le> 5"
proof (cases "i < 200")
  case True
  have "lows ! i = linspace (- 0.9999) (- 0.1) 200 ! i"
    using True by (simp add: lows_def nth_append length_linspace)
  moreover have "- 0.9999 \<le> linspace (- 0.9999) (- 0.1) 200 ! i"
    "linspace (- 0.9999) (- 0.1) 200 ! i \<le> - 0.1"
    using True by (auto intro!: linspace_bounds)
  ultimately show ?thesis by simp
next
  case False
  then have j: "i - 200 < 2000" using assms by simp
  have "lows ! i = linspace (- 0.05) 5.0 2000 ! (i - 200)"
    using False by (simp add: lows_def nth_append length_linspace)
  moreover have "- 0.05 \<le> linspace (- 0.05) 5.0 2000 ! (i - 200)"
    "linspace (- 0.05) 5.0 2000 ! (i - 200) \<le> 5.0"
    using j by (auto intro!: linspace_bounds)
  ultimately show ?thesis by simp
qed

lemma lows_below_5:
  assumes "i < 2199"
  shows "lows ! i < 5"
proof (cases "i < 200")
  case True
  have "lows ! i = linspace (- 0.9999) (- 0.1) 200 ! i"
    using True by (simp add: lows_def nth_append length_linspace)
  moreover have "linspace (- 0.9999) (- 0.1) 200 ! i \<le> - 0.1"
    using True by (auto intro!: linspace_bounds)
  ultimately show ?thesis by simp
next
  case False
  then have j: "Suc (i - 200) < 2000" using assms by simp
  have "lows ! i = linspace (- 0.05) 5.0 2000 ! (i - 200)"
    using False by (simp add: lows_def nth_append length_linspace)
  moreover have "linspace (- 0.05) 5.0 2000 ! (i - 200) < 5.0"
    using j by (intro linspace_below_stop) simp_all
  ultimately show ?thesis by simp
qed

lemma lows_last: "lows ! 2199 = 5"
proof -
  have "lows ! 2199 = linspace (- 0.05) 5.0 2000 ! (2000 - 1)"
    by (simp add: lows_def nth_append length_linspace)
  also have "\<dots> = 5.0" by (rule linspace_last) simp
  finally show ?thesis by simp
qed

lemma scan_no_change:
  "length xs = length vs \<Longrightarrow>
   (\<forall>i. Suc i < length vs \<longrightarrow> vs ! i \<noteq> 0 \<and> \<not> vs ! i * vs ! Suc i < 0) \<Longrightarrow>
   scan xs vs acc = Sign_changes acc"
proof (induction xs vs acc rule: scan.induct)
  case (1 x x' xs v v' vs sign_changes)
  from 1(3) have h0: "v \<noteq> 0 \<and> \<not> v * v' < 0" by (auto dest: spec[of _ 0])
  have rest: "\<forall>i. Suc i < length (v' # vs) \<longrightarrow> (v' # vs) ! i \<noteq> 0 \<and> \<not> (v' # vs) ! i * (v' # vs) ! Suc i < 0"
  proof (intro allI impI)
    fix i assume "Suc i < length (v' # vs)"
    then have "Suc (Suc i) < length (v # v' # vs)" by simp
    with 1(3) have "(v # v' # vs) ! Suc i \<noteq> 0 \<and> \<not> (v # v' # vs) ! Suc i * (v # v' # vs) ! Suc (Suc i) < 0"
      by blast
    then show "(v' # vs) ! i \<noteq> 0 \<and> \<not> (v' # vs) ! i * (v' # vs) ! Suc i < 0" by simp
  qed
  from 1(2) have len: "length (x' # xs) = length (v' # vs)" by simp
  show ?case using h0 "1.IH"[OF _ len rest] by simp
qed simp_all

lemma scan_members:
  "(scan xs vs acc = Zero_at z \<longrightarrow> z \<in> set xs) \<and>
   (scan xs vs acc = Sign_changes l \<longrightarrow>
      (\<forall>(a, b) \<in> set l. (a, b) \<in> set acc \<or> (a \<in> set xs \<and> b \<in> set xs)))"
proof (induction xs vs acc rule: scan.induct)
  case (1 x x' xs v v' vs sign_changes)
  then show ?case by (auto split: if_splits)
qed auto


lemma irr_f_Nil: "irr_f [] r = 0"
  by (simp add: irr_f_def enumerate_eq_zip)

lemma irr_f_single: "irr_f [c] r = c"
  by (simp add: irr_f_def enumerate_eq_zip)

lemma irr_f_pair: "irr_f [c, d] r = c + d / (1 + r)"
  by (simp add: irr_f_def enumerate_eq_zip upt_rec)

lemma irr_fprime_pair: "irr_fprime [c, d] r = - d / (1 + r)\<^sup>2"
  by (simp add: irr_fprime_def enumerate_eq_zip upt_rec power2_eq_square)

lemma newton_converged:
  "\<not> zero_divisor r 0 (length cf) \<Longrightarrow> \<bar>irr_f cf r\<bar> < tol \<Longrightarrow> newton cf tol (Suc k) r = Some r"
  by simp

lemma newton_next:
  "\<not> zero_divisor r 0 (length cf) \<Longrightarrow> \<not> \<bar>irr_f cf r\<bar> < tol \<Longrightarrow>
   \<not> zero_divisor r 1 (length cf) \<Longrightarrow> \<not> \<bar>irr_fprime cf r\<bar> < 1 / 10 ^ 12 \<Longrightarrow>
   r' = r - irr_f cf r / irr_fprime cf r \<Longrightarrow> \<not> r' \<le> - 0.999999 \<Longrightarrow>
   newton cf tol (Suc k) r = newton cf tol k r'"
  by (simp add: Let_def)

lemma newton_leaves_domain:
  "\<not> zero_divisor r 0 (length cf) \<Longrightarrow> \<not> \<bar>irr_f cf r\<bar> < tol \<Longrightarrow>
   \<not> zero_divisor r 1 (length cf) \<Longrightarrow> \<not> \<bar>irr_fprime cf r\<bar> < 1 / 10 ^ 12 \<Longrightarrow>
   r - irr_f cf r / irr_fprime cf r \<le> - 0.999999 \<Longrightarrow>
   newton cf tol (Suc k) r = None"
  by (simp add: Let_def)

lemma newton_flat:
  "\<not> zero_divisor r 0 (length cf) \<Longrightarrow> \<not> \<bar>irr_f cf r\<bar> < tol \<Longrightarrow>
   \<not> zero_divisor r 1 (length cf) \<Longrightarrow> \<bar>irr_fprime cf r\<bar> < 1 / 10 ^ 12 \<Longrightarrow>
   newton cf tol (Suc k) r = None"
  by (simp add: Let_def)

lemma newton_5000:
  "newton [- 5000, 5000] (1 / 10 ^ 8) (Suc (Suc (Suc (Suc (Suc k))))) 0.1 = Some (- (1 / 10 ^ 16))"
proof -
  let ?cf = "[- 5000, 5000 :: real]" and ?tol = "1 / 10 ^ 8 :: real"
  have 1: "newton ?cf ?tol (Suc (Suc (Suc (Suc (Suc k))))) 0.1 = newton ?cf ?tol (Suc (Suc (Suc (Suc k)))) (- (1 / 10 ^ 2))"
    by (rule newton_next) (simp_all add: zero_divisor_iff irr_f_pair irr_fprime_pair power2_eq_square)
  have 2: "newton ?cf ?tol (Suc (Suc (Suc (Suc k)))) (- (1 / 10 ^ 2)) = newton ?cf ?tol (Suc (Suc (Suc k))) (- (1 / 10 ^ 4))"
    by (rule newton_next) (simp_all add: zero_divisor_iff irr_f_pair irr_fprime_pair power2_eq_square)
  have 3: "newton ?cf ?tol (Suc (Suc (Suc k))) (- (1 / 10 ^ 4)) = newton ?cf ?tol (Suc (Suc k)) (- (1 / 10 ^ 8))"
    by (rule newton_next) (simp_all add: zero_divisor_iff irr_f_pair irr_fprime_pair power2_eq_square)
  have 4: "newton ?cf ?tol (Suc (Suc k)) (- (1 / 10 ^ 8)) = newton ?cf ?tol (Suc k) (- (1 / 10 ^ 16))"
    by (rule newton_next) (simp_all add: zero_divisor_iff irr_f_pair irr_fprime_pair power2_eq_square)
  have 5: "newton ?cf ?tol (Suc k) (- (1 / 10 ^ 16)) = Some (- (1 / 10 ^ 16))"
    by (rule newton_converged) (simp_all add: zero_divisor_iff irr_f_pair)
  show ?thesis using 1 2 3 4 5 by simp
qed


lemma irr_fprime_single: "irr_fprime [c] r = 0"
  by (simp add: irr_fprime_def enumerate_eq_zip)

lemma newton_single:
  "newton [c] tol (Suc k) r = (if \<bar>c\<bar> < tol then Some r else None)"
  by (simp add: zero_divisor_iff irr_f_single irr_fprime_single Let_def)

lemma fallback_none:
  assumes "\<And>i. Suc i < 2200 \<Longrightarrow>
    irr_f cf (lows ! i) \<noteq> 0 \<and> \<not> irr_f cf (lows ! i) * irr_f cf (lows ! Suc i) < 0"
  shows "fallback cf tol = None"
proof -
  have "scan lows (map (irr_f cf) lows) [] = Sign_changes []"
    using assms by (intro scan_no_change) (simp_all add: length_lows)
  then show ?thesis by (simp add: fallback_def)
qed

lemma sum_enumerate_nonneg:
  "0 < 1 + (r::real) \<Longrightarrow> \<forall>c\<in>set cf. 0 \<le> c \<Longrightarrow>
   0 \<le> (\<Sum>(p, c) \<leftarrow> enumerate n cf. c / (1 + r) ^ p)"
proof (induction cf arbitrary: n)
  case Nil
  then show ?case by simp
next
  case (Cons a cf)
  have "0 \<le> a / (1 + r) ^ n" using Cons.prems by simp
  moreover have "0 \<le> (\<Sum>(p, c) \<leftarrow> enumerate (Suc n) cf. c / (1 + r) ^ p)"
    using Cons.IH[of "Suc n"] Cons.prems by simp
  ultimately show ?case by simp
qed

lemma sum_enumerate_nonpos:
  "0 < 1 + (r::real) \<Longrightarrow> \<forall>c\<in>set cf. c \<le> 0 \<Longrightarrow>
   (\<Sum>(p, c) \<leftarrow> enumerate n cf. c / (1 + r) ^ p) \<le> 0"
proof (induction cf arbitrary: n)
  case Nil
  then show ?case by simp
next
  case (Cons a cf)
  have "a / (1 + r) ^ n \<le> 0" using Cons.prems by (simp add: divide_nonpos_pos)
  moreover have "(\<Sum>(p, c) \<leftarrow> enumerate (Suc n) cf. c / (1 + r) ^ p) \<le> 0"
    using Cons.IH[of "Suc n"] Cons.prems by simp
  ultimately show ?case by simp
qed

lemma irr_f_positive_flows:
  assumes "- 1 < r" "cf \<noteq> []" "\<forall>c\<in>set cf. 0 < c"
  shows "hd cf \<le> irr_f cf r"
proof -
  obtain a cs where cf: "cf = a # cs" using assms(2) by (cases cf) auto
  have "0 \<le> (\<Sum>(p, c) \<leftarrow> enumerate (Suc 0) cs. c / (1 + r) ^ p)"
    using assms cf by (intro sum_enumerate_nonneg) (auto intro: less_imp_le)
  then show ?thesis by (simp add: cf irr_f_def)
qed

lemma irr_f_negative_flows:
  assumes "- 1 < r" "cf \<noteq> []" "\<forall>c\<in>set cf. c < 0"
  shows "irr_f cf r \<le> hd cf"
proof -
  obtain a cs where cf: "cf = a # cs" using assms(2) by (cases cf) auto
  have "(\<Sum>(p, c) \<leftarrow> enumerate (Suc 0) cs. c / (1 + r) ^ p) \<le> 0"
    using assms cf by (intro sum_enumerate_nonpos) (auto intro: less_imp_le)
  then show ?thesis by (simp add: cf irr_f_def)
qed

lemma newton_never_converges:
  "(\<And>r. - 1 < r \<Longrightarrow> \<not> \<bar>irr_f cf r\<bar> < tol) \<Longrightarrow> - 1 < r0 \<Longrightarrow> newton cf tol k r0 = None"
proof (induction k arbitrary: r0)
  case 0
  then show ?case by simp
next
  case (Suc k)
  have nc: "\<not> \<bar>irr_f cf r0\<bar> < tol" using Suc.prems by blast
  have "newton cf tol k r' = None" if "\<not> r' \<le> - 0.999999" for r'
    using that Suc.prems(1) by (intro Suc.IH) auto
  then show ?case using nc by (simp add: Let_def)
qed

lemma lows_gt_minus_one: "i < 2200 \<Longrightarrow> - 1 < lows ! i"
  using lows_bounds[of i] by simp

lemma irr_uniform_sign_none:
  assumes "cf \<noteq> []" "(\<forall>c\<in>set cf. 0 < c) \<or> (\<forall>c\<in>set cf. c < 0)" "tol \<le> \<bar>hd cf\<bar>" "- 1 < guess"
  shows "irr cf guess tol maxiter = None"
proof -
  from assms(2) show ?thesis
  proof
    assume pos: "\<forall>c\<in>set cf. 0 < c"
    then have h: "0 < hd cf" using assms(1) by simp
    have f: "hd cf \<le> irr_f cf r" if "- 1 < r" for r
      using that assms(1) pos by (rule irr_f_positive_flows)
    have "newton cf tol (nat maxiter) guess = None"
    proof (rule newton_never_converges)
      fix r :: real assume "- 1 < r"
      from f[OF this] h assms(3) show "\<not> \<bar>irr_f cf r\<bar> < tol" by (simp add: abs_if split: if_splits)
    qed (rule assms(4))
    moreover have "fallback cf tol = None"
    proof (rule fallback_none)
      fix i assume i: "Suc i < 2200"
      have "0 < irr_f cf (lows ! i)" "0 < irr_f cf (lows ! Suc i)"
        using f[of "lows ! i"] f[of "lows ! Suc i"] h i lows_gt_minus_one[of i] lows_gt_minus_one[of "Suc i"]
        by simp_all
      then show "irr_f cf (lows ! i) \<noteq> 0 \<and> \<not> irr_f cf (lows ! i) * irr_f cf (lows ! Suc i) < 0"
        by (simp add: mult_less_0_iff)
    qed
    ultimately show ?thesis by (simp add: irr_def)
  next
    assume neg: "\<forall>c\<in>set cf. c < 0"
    then have h: "hd cf < 0" using assms(1) by simp
    have f: "irr_f cf r \<le> hd cf" if "- 1 < r" for r
      using that assms(1) neg by (rule irr_f_negative_flows)
    have "newton cf tol (nat maxiter) guess = None"
    proof (rule newton_never_converges)
      fix r :: real assume "- 1 < r"
      from f[OF this] h assms(3) show "\<not> \<bar>irr_f cf r\<bar> < tol" by (simp add: abs_if split: if_splits)
    qed (rule assms(4))
    moreover have "fallback cf tol = None"
    proof (rule fallback_none)
      fix i assume i: "Suc i < 2200"
      have "irr_f cf (lows ! i) < 0" "irr_f cf (lows ! Suc i) < 0"
        using f[of "lows ! i"] f[of "lows ! Suc i"] h i lows_gt_minus_one[of i] lows_gt_minus_one[of "Suc i"]
        by simp_all
      then show "irr_f cf (lows ! i) \<noteq> 0 \<and> \<not> irr_f cf (lows ! i) * irr_f cf (lows ! Suc i) < 0"
        by (simp add: mult_less_0_iff)
    qed
    ultimately show ?thesis by (simp add: irr_def)
  qed
qed

lemma discounted_single: "discounted rate [c] = c"
  by (simp add: discounted_def enumerate_eq_zip)

lemma npv_single: "npv rate [c] = Inr c"
  by (simp add: npv_def zero_divisor_iff discounted_single)

lemma npv_np_single: "npv_np rate [c] = Some c"
  by (simp add: npv_np_def zero_divisor_iff discounted_single)

lemma npv_profile_single: "npv_profile [c] grid = map (\<lambda>t. (t, Some c)) grid"
  by (simp add: npv_profile_def npv_np_single)

lemma benefit_cost_ratio_single:
  "benefit_cost_ratio [c] rate = Inr (if c \<le> - (1 / 10 ^ 12) then Some 0 else None)"
  by (simp add: benefit_cost_ratio_def npv_single bind_r_def Let_def)

lemma fallback_single: "c \<noteq> 0 \<Longrightarrow> fallback [c] tol = None"
  by (rule fallback_none) (simp add: irr_f_single mult_less_0_iff)

lemma irr_single:
  assumes "0 < maxiter" "0 < tol"
  shows "irr [c] guess tol maxiter = (if \<bar>c\<bar> < tol then Some guess else None)"
proof -
  obtain k where k: "nat maxiter = Suc k" using assms(1) by (cases "nat maxiter") auto
  show ?thesis
  proof (cases "\<bar>c\<bar> < tol")
    case True
    then show ?thesis by (simp add: irr_def k newton_single del: newton.simps)
  next
    case False
    then have "c \<noteq> 0" using assms(2) by auto
    then show ?thesis using False by (simp add: irr_def k newton_single fallback_single del: newton.simps)
  qed
qed






lemma draw_shocks_single: "draw_shocks R [c] sigma g = Inr ([1], g)"
  by (simp add: draw_shocks_def)

lemma simulate_single: "simulate R [c] rate sigma k g = Inr (replicate k (Some c), g)"
  by (induction k) (simp_all add: draw_shocks_single npv_np_single bind_r_def)

lemma those_replicate: "those (replicate k (Some c)) = Some (replicate k c)"
  by (induction k) simp_all

lemma interpolate_replicate:
  assumes "0 < k" "0 \<le> h" "h \<le> real (k - 1)"
  shows "interpolate (replicate k c) h = c"
proof -
  have "nat \<lfloor>h\<rfloor> \<le> k - 1" using assms(2,3) by linarith
  then have "nat \<lfloor>h\<rfloor> < k" "min (nat \<lfloor>h\<rfloor> + 1) (k - 1) < k" using assms(1) by linarith+
  then show ?thesis by (simp add: interpolate_def Let_def)
qed

lemma percentile_replicate:
  assumes "0 < k" "0 \<le> q" "q \<le> 100"
  shows "percentile (replicate k (Some c)) q = Inr (Some c)"
proof -
  have "real (k - 1) * q \<le> real (k - 1) * 100" using assms(3) by (intro mult_left_mono) simp_all
  then have "interpolate (replicate k c) (real (k - 1) * q / 100) = c"
    using assms by (intro interpolate_replicate) simp_all
  moreover have "sort (replicate k c) = replicate k c"
    by (simp add: sorted_sort_id sorted_replicate)
  ultimately show ?thesis using assms(1) by (simp add: percentile_def those_replicate)
qed

lemma np_mean_replicate: "0 < k \<Longrightarrow> np_mean (replicate k (Some c)) = Some c"
  by (simp add: np_mean_def those_replicate sum_list_replicate)

lemma np_std_replicate: "0 < k \<Longrightarrow> np_std (replicate k (Some c)) = Some 0"
  by (simp add: np_std_def those_replicate sum_list_replicate Let_def)

lemma monte_carlo_npv_single:
  assumes "0 < n" "(case seed of None \<Rightarrow> Inr g | Some s \<Rightarrow> seed_state R s) = Inr g0"
  shows "monte_carlo_npv R [c] rate n sigma seed g =
    Inr (\<lparr>mc_n_sim = n, mc_mean = Some c, mc_std = Some 0,
          mc_p5 = Some c, mc_p25 = Some c, mc_p50 = Some c, mc_p75 = Some c, mc_p95 = Some c,
          mc_samples = replicate (nat n) (Some c)\<rparr>, g0)"
proof -
  have k: "0 < nat n" using assms(1) by simp
  show ?thesis
    unfolding monte_carlo_npv_def assms(2)
    by (simp add: simulate_single bind_r_def
        percentile_replicate[OF k] np_mean_replicate[OF k] np_std_replicate[OF k])
qed

lemma monte_carlo_npv_no_trials:
  assumes "n \<le> 0" "(case seed of None \<Rightarrow> Inr g | Some s \<Rightarrow> seed_state R s) = Inr g0"
  shows "monte_carlo_npv R cashflows rate n sigma seed g = Inl IndexError"
proof -
  have "nat n = 0" using assms(1) by simp
  then show ?thesis
    unfolding monte_carlo_npv_def assms(2) by (simp add: bind_r_def percentile_def)
qed

lemma demo_run:
  "monte_carlo_npv counting_rng [- 100, 110] 0.1 2 1 (Some 0) 7 =
    Inr (\<lparr>mc_n_sim = 2, mc_mean = Some 50, mc_std = Some 50,
          mc_p5 = Some 5, mc_p25 = Some 25, mc_p50 = Some 50, mc_p75 = Some 75, mc_p95 = Some 95,
          mc_samples = [Some 0, Some 100]\<rparr>, 2)"
proof -
  have g0: "(case Some 0 of None \<Rightarrow> Inr 7 | Some s \<Rightarrow> seed_state counting_rng s) = Inr 0"
    by (simp add: counting_rng_def)
  have "simulate counting_rng [- 100, 110] 0.1 1 (Suc (Suc 0)) 0 = Inr ([Some 0, Some 100], 2)"
    by (simp add: draw_shocks_def counting_rng_def bind_r_def npv_np_def zero_divisor_iff
        discounted_def enumerate_eq_zip upt_rec)
  moreover have "nat 2 = Suc (Suc 0)" by simp
  ultimately have s: "simulate counting_rng [- 100, 110] 0.1 1 (nat 2) 0 = Inr ([Some 0, Some 100], 2)"
    by (simp only:)
  have st: "np_std [Some 0, Some 100] = Some 50"
    by (simp add: np_std_def Let_def real_sqrt_unique)
  have mn: "np_mean [Some 0, Some 100] = Some 50"
    by (simp add: np_mean_def)
  have p: "percentile [Some 0, Some 100] q = Inr (Some q)" if "0 \<le> q" "q < 100" for q :: real
  proof -
    have "\<lfloor>q / 100\<rfloor> = 0" using that by (simp add: floor_eq_iff)
    then show ?thesis by (simp add: percentile_def interpolate_def Let_def)
  qed
  have ps: "percentile [Some 0, Some 100] 5 = Inr (Some 5)" "percentile [Some 0, Some 100] 25 = Inr (Some 25)"
    "percentile [Some 0, Some 100] 50 = Inr (Some 50)" "percentile [Some 0, Some 100] 75 = Inr (Some 75)"
    "percentile [Some 0, Some 100] 95 = Inr (Some 95)"
    by (simp_all add: p)
  have b: "bind_r (Inr 0) k = k (0::int)" for k :: "int \<Rightarrow> error + (summary \<times> int)"
    by (simp add: bind_r_def)
  show ?thesis
    unfolding monte_carlo_npv_def g0 b s
    by (simp add: bind_r_def ps st mn)
qed


lemma discounted_Nil: "discounted rate [] = 0"
  by (simp add: discounted_def enumerate_eq_zip)

lemma npv_Nil: "npv rate [] = Inr 0"
  by (simp add: npv_def zero_divisor_iff discounted_Nil)

lemma npv_profile_Nil: "npv_profile [] grid = map (\<lambda>t. (t, Some 0)) grid"
  by (simp add: npv_profile_def npv_np_def zero_divisor_iff discounted_Nil)

lemma benefit_cost_ratio_Nil: "benefit_cost_ratio [] rate = Inr None"
  by (simp add: benefit_cost_ratio_def npv_Nil bind_r_def)

lemma irr_Nil:
  assumes "0 < tol" "0 < maxiter"
  shows "irr [] guess tol maxiter = Some guess"
proof -
  obtain k where k: "nat maxiter = Suc k" using assms(2) by (cases "nat maxiter") auto
  have "newton [] tol (Suc k) guess = Some guess"
    using assms(1) by (intro newton_converged) (simp_all add: zero_divisor_iff irr_f_Nil)
  then show ?thesis by (simp add: irr_def k del: newton.simps)
qed

lemma draw_shocks_hd:
  assumes "base \<noteq> []" "draw_shocks R base sigma g = Inr (shocks, g')"
  shows "hd shocks = 1 \<and> hd (map2 (*) base shocks) = hd base"
proof -
  obtain b bs where base: "base = b # bs" using assms(1) by (cases base) auto
  from assms(2) obtain rest where "shocks = 1 # rest"
    by (auto simp: draw_shocks_def base bind_r_def split: if_splits sum.splits)
  then show ?thesis by (simp add: base)
qed

lemma safe_normalize_minmax: "xs \<noteq> [] \<Longrightarrow> safe_normalize xs = Inr (map (minmax xs) xs)"
  by (simp add: safe_normalize_def minmax_def)

lemma safe_normalize_Nil: "safe_normalize [] = Inl ValueError"
  by (simp add: safe_normalize_def)

lemma minmax_unit_interval:
  assumes "x \<in> set xs"
  shows "0 \<le> minmax xs x \<and> minmax xs x \<le> 1"
proof (cases "Max (set xs) = Min (set xs)")
  case True
  then show ?thesis by (simp add: minmax_def)
next
  case False
  have lo: "Min (set xs) \<le> x" and hi: "x \<le> Max (set xs)" using assms by simp_all
  then have "Min (set xs) < Max (set xs)" using False by linarith
  then show ?thesis using lo hi by (simp add: minmax_def)
qed

lemma scores_are_expected:
  "map (score_entry w (map (\<lambda>p. metric p ''van'') ps) (map (\<lambda>p. metric p ''tir'') ps)
          (map (\<lambda>p. metric p ''b_c'') ps)
          (map (minmax (map (\<lambda>p. metric p ''van'') ps)) (map (\<lambda>p. metric p ''van'') ps))
          (map (minmax (map (\<lambda>p. metric p ''tir'') ps)) (map (\<lambda>p. metric p ''tir'') ps))
          (map (minmax (map (\<lambda>p. metric p ''b_c'') ps)) (map (\<lambda>p. metric p ''b_c'') ps)))
     (enumerate 0 ps)
   = map (expected_entry w ps) [0..<length ps]"
  by (rule nth_equalityI) (simp_all add: score_entry_def expected_entry_def nth_enumerate_eq)

lemma compare_projects_eq:
  assumes "ps \<noteq> []"
  shows "compare_projects ps wo =
    Inr (sort_key (\<lambda>x. - score x)
          (map (expected_entry (case wo of None \<Rightarrow> default_weights | Some w \<Rightarrow> w) ps) [0..<length ps]))"
  using assms
  by (simp add: compare_projects_def safe_normalize_minmax bind_r_def Let_def scores_are_expected
      del: map_map)

lemma scan_zero:
  "length xs = length vs \<Longrightarrow> Suc j < length vs \<Longrightarrow> vs ! j = 0 \<Longrightarrow> (\<forall>i<j. vs ! i \<noteq> 0) \<Longrightarrow>
   scan xs vs acc = Zero_at (xs ! j)"
proof (induction xs vs acc arbitrary: j rule: scan.induct)
  case (1 x x' xs v v' vs sign_changes)
  show ?case
  proof (cases j)
    case 0
    with 1(4) show ?thesis by simp
  next
    case (Suc j')
    with 1(5) have v: "v \<noteq> 0" by auto
    have "scan (x' # xs) (v' # vs) (if v * v' < 0 then sign_changes @ [(x, x')] else sign_changes)
          = Zero_at ((x' # xs) ! j')"
    proof (rule "1.IH"[OF v])
      show "length (x' # xs) = length (v' # vs)" using 1(2) by simp
      show "Suc j' < length (v' # vs)" using 1(3) Suc by simp
      show "(v' # vs) ! j' = 0" using 1(4) Suc by simp
      show "\<forall>i<j'. (v' # vs) ! i \<noteq> 0" using 1(5) Suc by auto
    qed
    then show ?thesis using v Suc by simp
  qed
qed simp_all

lemma scan_extends:
  "length xs = length vs \<Longrightarrow> (\<forall>i. Suc i < length vs \<longrightarrow> vs ! i \<noteq> 0) \<Longrightarrow>
   \<exists>l. scan xs vs acc = Sign_changes (acc @ l)"
proof (induction xs vs acc rule: scan.induct)
  case (1 x x' xs v v' vs sign_changes)
  have v: "v \<noteq> 0" using 1(3) by (auto dest: spec[of _ 0])
  have len: "length (x' # xs) = length (v' # vs)" using 1(2) by simp
  have nz: "\<forall>i. Suc i < length (v' # vs) \<longrightarrow> (v' # vs) ! i \<noteq> 0"
  proof (intro allI impI)
    fix i assume "Suc i < length (v' # vs)"
    then have "Suc (Suc i) < length (v # v' # vs)" by simp
    with 1(3) have "(v # v' # vs) ! Suc i \<noteq> 0" by blast
    then show "(v' # vs) ! i \<noteq> 0" by simp
  qed
  from "1.IH"[OF v len nz] obtain l where
    "scan (x' # xs) (v' # vs) (if v * v' < 0 then sign_changes @ [(x, x')] else sign_changes)
       = Sign_changes ((if v * v' < 0 then sign_changes @ [(x, x')] else sign_changes) @ l)"
    by blast
  then show ?case using v by (cases "v * v' < 0") auto
qed simp_all

lemma scan_first_bracket:
  "length xs = length vs \<Longrightarrow> (\<forall>i. Suc i < length vs \<longrightarrow> vs ! i \<noteq> 0) \<Longrightarrow>
   Suc j < length vs \<Longrightarrow> vs ! j * vs ! Suc j < 0 \<Longrightarrow>
   (\<forall>i<j. \<not> vs ! i * vs ! Suc i < 0) \<Longrightarrow>
   \<exists>rest. scan xs vs acc = Sign_changes (acc @ (xs ! j, xs ! Suc j) # rest)"
proof (induction xs vs acc arbitrary: j rule: scan.induct)
  case (1 x x' xs v v' vs sign_changes)
  have v: "v \<noteq> 0" using 1(3) by (auto dest: spec[of _ 0])
  have len: "length (x' # xs) = length (v' # vs)" using 1(2) by simp
  have nz: "\<forall>i. Suc i < length (v' # vs) \<longrightarrow> (v' # vs) ! i \<noteq> 0"
  proof (intro allI impI)
    fix i assume "Suc i < length (v' # vs)"
    then have "Suc (Suc i) < length (v # v' # vs)" by simp
    with 1(3) have "(v # v' # vs) ! Suc i \<noteq> 0" by blast
    then show "(v' # vs) ! i \<noteq> 0" by simp
  qed
  show ?case
  proof (cases j)
    case 0
    with 1(5) have neg: "v * v' < 0" by simp
    from scan_extends[OF len nz, of "sign_changes @ [(x, x')]"] obtain l where
      "scan (x' # xs) (v' # vs) (sign_changes @ [(x, x')]) = Sign_changes ((sign_changes @ [(x, x')]) @ l)"
      by blast
    then show ?thesis using v neg 0 by auto
  next
    case (Suc j')
    with 1(6) have nn: "\<not> v * v' < 0" by (auto dest: spec[of _ 0])
    have "\<exists>rest. scan (x' # xs) (v' # vs) (if v * v' < 0 then sign_changes @ [(x, x')] else sign_changes)
          = Sign_changes ((if v * v' < 0 then sign_changes @ [(x, x')] else sign_changes)
               @ ((x' # xs) ! j', (x' # xs) ! Suc j') # rest)"
    proof (rule "1.IH"[OF v len nz])
      show "Suc j' < length (v' # vs)" using 1(4) Suc by simp
      show "(v' # vs) ! j' * (v' # vs) ! Suc j' < 0" using 1(5) Suc by simp
      show "\<forall>i<j'. \<not> (v' # vs) ! i * (v' # vs) ! Suc i < 0"
      proof (intro allI impI)
        fix i assume "i < j'"
        then have "Suc i < j" using Suc by simp
        with 1(6) have "\<not> (v # v' # vs) ! Suc i * (v # v' # vs) ! Suc (Suc i) < 0" by blast
        then show "\<not> (v' # vs) ! i * (v' # vs) ! Suc i < 0" by simp
      qed
    qed
    then show ?thesis using v nn Suc by simp
  qed
qed simp_all


lemma fallback_zero:
  assumes "j < 2199" "irr_f cf (lows ! j) = 0" "\<forall>i<j. irr_f cf (lows ! i) \<noteq> 0"
  shows "fallback cf tol = Some (lows ! j)"
proof -
  have "scan lows (map (irr_f cf) lows) [] = Zero_at (lows ! j)"
    using assms by (intro scan_zero) (simp_all add: length_lows)
  then show ?thesis by (simp add: fallback_def)
qed

lemma fallback_first_bracket:
  assumes "j < 2199" "\<forall>i<2199. irr_f cf (lows ! i) \<noteq> 0"
    "irr_f cf (lows ! j) * irr_f cf (lows ! Suc j) < 0"
    "\<forall>i<j. \<not> irr_f cf (lows ! i) * irr_f cf (lows ! Suc i) < 0"
  shows "fallback cf tol =
    Some (bisect (irr_f cf) tol 100 (lows ! j) (lows ! Suc j) (irr_f cf (lows ! j)))"
proof -
  have "\<exists>rest. scan lows (map (irr_f cf) lows) [] =
      Sign_changes ([] @ (lows ! j, lows ! Suc j) # rest)"
  proof (rule scan_first_bracket)
    show "length lows = length (map (irr_f cf) lows)" by simp
    show "\<forall>i. Suc i < length (map (irr_f cf) lows) \<longrightarrow> map (irr_f cf) lows ! i \<noteq> 0"
      using assms(2) by (simp add: length_lows)
    show "Suc j < length (map (irr_f cf) lows)" using assms(1) by (simp add: length_lows)
    show "map (irr_f cf) lows ! j * map (irr_f cf) lows ! Suc j < 0"
      using assms(1,3) by (simp add: length_lows)
    show "\<forall>i<j. \<not> map (irr_f cf) lows ! i * map (irr_f cf) lows ! Suc i < 0"
      using assms(1,4) by (simp add: length_lows)
  qed
  then show ?thesis by (auto simp: fallback_def)
qed

lemma simulate_expected_trials:
  "simulate R base rate sigma k g = expected_trials R base rate sigma k g"
proof (induction k arbitrary: g)
  case 0
  then show ?case by simp
next
  case (Suc k)
  show ?case
  proof (cases base)
    case Nil
    then show ?thesis using Suc.IH by (simp add: draw_shocks_def shocked_scenario_def bind_r_def)
  next
    case (Cons c later)
    show ?thesis
    proof (cases "later = []")
      case True
      then show ?thesis using Cons Suc.IH
        by (simp add: draw_shocks_def shocked_scenario_def bind_r_def split: sum.splits)
    next
      case False
      then have l: "1 < length base" "\<not> length base \<le> 1" using Cons by (cases later; simp)+
      show ?thesis
      proof (cases "normal R 1.0 sigma (length base - 1) g")
        case (Inl e)
        then show ?thesis using l by (simp add: draw_shocks_def bind_r_def)
      next
        case (Inr dg)
        obtain draws g' where dg: "dg = (draws, g')" by (cases dg)
        show ?thesis using l Inr dg Cons Suc.IH[of g']
          by (simp add: draw_shocks_def shocked_scenario_def bind_r_def split: sum.splits)
      qed
    qed
  qed
qed

lemma monte_carlo_npv_samples:
  assumes "monte_carlo_npv R cashflows rate n sigma seed g = Inr (m, g')"
  shows "\<exists>g0. (case seed of None \<Rightarrow> Inr g | Some s \<Rightarrow> seed_state R s) = Inr g0 \<and>
     expected_trials R cashflows rate sigma (nat n) g0 = Inr (mc_samples m, g')"
proof -
  from assms obtain g0 where
    g0: "(case seed of None \<Rightarrow> Inr g | Some s \<Rightarrow> seed_state R s) = Inr g0"
    unfolding monte_carlo_npv_def by (auto simp: bind_r_def split: sum.splits)
  from assms obtain sims g1 where
    sim: "simulate R cashflows rate sigma (nat n) g0 = Inr (sims, g1)"
    unfolding monte_carlo_npv_def g0 by (auto simp: bind_r_def split: sum.splits)
  from assms sim have "mc_samples m = sims \<and> g' = g1"
    unfolding monte_carlo_npv_def g0 by (auto simp: bind_r_def split: sum.splits)
  then show ?thesis using g0 sim by (auto simp: simulate_expected_trials)
qed

section \<open>The claims\<close>

text \<open>
  Claim C10. Started from a guess above \<open>-0.999999\<close>, whatever rate \<^verbatim>\<open>irr\<close> returns is
  strictly greater than \<open>-1\<close>: Newton only accepts iterates above \<open>-0.999999\<close>, and the
  fallback returns a grid rate or a bisection midpoint, all within \<open>[-0.9999, 5]\<close>.
\<close>

theorem irr_result_above_minus_one:
  assumes "- 0.999999 < guess" and "irr cf guess tol maxiter = Some r"
  shows "- 1 < r"
proof (cases "newton cf tol (nat maxiter) guess")
  case (Some r')
  with assms have "- 0.999999 < r" by (auto simp: irr_def dest: newton_gt)
  then show ?thesis by simp
next
  case None
  with assms(2) have fb: "fallback cf tol = Some r" by (simp add: irr_def)
  have inlows: "- 1 < x" if "x \<in> set lows" for x
  proof -
    from that obtain i where "i < length lows" "lows ! i = x" by (auto simp: in_set_conv_nth)
    then show ?thesis using lows_bounds[of i] by (simp add: length_lows)
  qed
  show ?thesis
  proof (cases "scan lows (map (irr_f cf) lows) []")
    case (Zero_at x)
    with fb have "r = x" by (simp add: fallback_def)
    moreover have "x \<in> set lows" using scan_members[of lows "map (irr_f cf) lows" "[]" x] Zero_at by simp
    ultimately show ?thesis using inlows by simp
  next
    case (Sign_changes l)
    with fb obtain a b rest where l: "l = (a, b) # rest"
      and r: "r = bisect (irr_f cf) tol 100 a b (irr_f cf a)"
      by (cases l) (auto simp: fallback_def)
    have "a \<in> set lows \<and> b \<in> set lows"
      using scan_members[of lows "map (irr_f cf) lows" "[]" _ l] Sign_changes l by auto
    then have "- 1 < min a b" using inlows by (simp add: min_def)
    then show ?thesis using bisect_between[of a b "irr_f cf" tol 100 "irr_f cf a"] r by linarith
  qed
qed


theorem irr_result_above_minus_one_witness:
  "- 0.999999 < (0::real) \<and> irr [- 1, 1] 0 (1 / 10 ^ 8) 200 = Some 0 \<and> - 1 < (0::real)"
proof -
  have "newton [- 1, 1] (1 / 10 ^ 8) (Suc 199) 0 = Some 0"
    by (rule newton_converged) (simp_all add: zero_divisor_iff irr_f_pair)
  then have e: "irr [- 1, 1] 0 (1 / 10 ^ 8) 200 = Some 0"
    by (simp add: irr_def)
  show ?thesis using irr_result_above_minus_one[of 0 "[- 1, 1]" "1 / 10 ^ 8" 200 0] e by simp
qed


text \<open>
  Claim C5. For the cashflows \<open>[-5000, 5000]\<close> the net value at rate \<open>0.10\<close> is
  \<open>-5000/11\<close>, within half a cent of \<open>-454.55\<close>; \<^verbatim>\<open>irr\<close> with the default guess
  returns the fifth Newton iterate, \<open>-10\<^sup>-\<^sup>1\<^sup>6\<close> in exact arithmetic, the first whose
  net value is below the tolerance: a rate close to zero, not zero.
\<close>

theorem scenario_b_values:
  "npv 0.10 [- 5000, 5000] = Inr (- (5000 / 11)) \<and>
   \<bar>- (5000 / 11) - (- 454.55 :: real)\<bar> < 0.005 \<and>
   irr [- 5000, 5000] 0.1 (1 / 10 ^ 8) 200 = Some (- (1 / 10 ^ 16))"
proof -
  have "nat 200 = Suc (Suc (Suc (Suc (Suc 195))))" by simp
  then have "irr [- 5000, 5000] 0.1 (1 / 10 ^ 8) 200 = Some (- (1 / 10 ^ 16))"
    using newton_5000[of 195] by (simp add: irr_def)
  moreover have "npv 0.10 [- 5000, 5000] = Inr (- (5000 / 11))"
    by (simp add: npv_def zero_divisor_iff discounted_def enumerate_eq_zip upt_rec)
  ultimately show ?thesis by simp
qed

theorem scenario_b_irr_not_zero:
  "irr [- 5000, 5000] 0.1 (1 / 10 ^ 8) 200 \<noteq> Some 0.0"
proof -
  have "nat 200 = Suc (Suc (Suc (Suc (Suc 195))))" by simp
  then have "irr [- 5000, 5000] 0.1 (1 / 10 ^ 8) 200 = Some (- (1 / 10 ^ 16))"
    using newton_5000[of 195] by (simp add: irr_def)
  then show ?thesis by simp
qed

text \<open>
  Claim C4. The scan tests \<^verbatim>\<open>vals[i] == 0\<close> only for \<open>i\<close> in
  \<^verbatim>\<open>range(len(vals) - 1)\<close>, so the last grid rate, \<open>5.0\<close>, is never tested. The
  cashflows \<open>[-1, 6]\<close> have net value exactly zero there and positive before; started
  from the guess \<open>20\<close>, Newton steps to \<open>-32.5\<close> and gives up, the scan finds neither a
  zero nor a sign change, and \<^verbatim>\<open>irr\<close> reports no rate.
\<close>

theorem irr_misses_zero_at_last_grid_rate:
  "lows ! 2199 = 5 \<and> length lows = 2200 \<and> irr_f [- 1, 6] (lows ! 2199) = 0 \<and>
   newton [- 1, 6] (1 / 10 ^ 8) (nat 200) 20 = None \<and>
   irr [- 1, 6] 20 (1 / 10 ^ 8) 200 = None"
proof -
  let ?cf = "[- 1, 6 :: real]"
  have z: "irr_f ?cf (lows ! 2199) = 0" by (simp add: lows_last irr_f_pair)
  have "newton ?cf (1 / 10 ^ 8) (Suc 199) 20 = None"
    by (rule newton_leaves_domain)
       (simp_all add: zero_divisor_iff irr_f_pair irr_fprime_pair power2_eq_square)
  then have n: "newton ?cf (1 / 10 ^ 8) (nat 200) 20 = None" by simp
  have fb: "fallback ?cf (1 / 10 ^ 8) = None"
  proof (rule fallback_none)
    fix i assume i: "Suc i < 2200"
    have a: "- 1 < lows ! i" "lows ! i < 5" using i lows_gt_minus_one[of i] lows_below_5[of i] by simp_all
    have b: "- 1 < lows ! Suc i" "lows ! Suc i \<le> 5"
      using i lows_gt_minus_one[of "Suc i"] lows_bounds[of "Suc i"] by simp_all
    have "0 < irr_f ?cf (lows ! i)" using a by (simp add: irr_f_pair field_simps)
    moreover have "0 \<le> irr_f ?cf (lows ! Suc i)" using b by (simp add: irr_f_pair field_simps)
    ultimately show "irr_f ?cf (lows ! i) \<noteq> 0 \<and> \<not> irr_f ?cf (lows ! i) * irr_f ?cf (lows ! Suc i) < 0"
      by (simp add: mult_less_0_iff)
  qed
  show ?thesis using z n fb by (simp add: irr_def lows_last length_lows)
qed

text \<open>
  Claim C3. A one-term sequence with a positive amount below the tolerance is all
  positive, yet Newton accepts the initial guess at once. What holds: a sequence uniform
  in sign whose period-0 amount is at least the tolerance in magnitude has no rate when
  the guess is above \<open>-1\<close>; and whenever the Newton phase ends without a result, no
  adjacent pair of the 2200-point grid has values of opposite sign and no sampled
  value is zero, \<^verbatim>\<open>irr\<close> returns \<open>None\<close>.
\<close>

theorem irr_reports_absence:
  "(cf \<noteq> [] \<and> ((\<forall>c\<in>set cf. 0 < c) \<or> (\<forall>c\<in>set cf. c < 0)) \<and> tol \<le> \<bar>hd cf\<bar> \<and> - 1 < guess
      \<longrightarrow> irr cf guess tol maxiter = None) \<and>
   (newton cf' tol' (nat maxiter') guess' = None \<and>
    (\<forall>i<2200. irr_f cf' (lows ! i) \<noteq> 0) \<and>
    (\<forall>i<2199. \<not> irr_f cf' (lows ! i) * irr_f cf' (lows ! Suc i) < 0)
      \<longrightarrow> irr cf' guess' tol' maxiter' = None)"
proof (intro conjI impI)
  assume "cf \<noteq> [] \<and> ((\<forall>c\<in>set cf. 0 < c) \<or> (\<forall>c\<in>set cf. c < 0)) \<and> tol \<le> \<bar>hd cf\<bar> \<and> - 1 < guess"
  then show "irr cf guess tol maxiter = None"
    using irr_uniform_sign_none[of cf tol guess maxiter] by blast
next
  assume h: "newton cf' tol' (nat maxiter') guess' = None \<and>
    (\<forall>i<2200. irr_f cf' (lows ! i) \<noteq> 0) \<and>
    (\<forall>i<2199. \<not> irr_f cf' (lows ! i) * irr_f cf' (lows ! Suc i) < 0)"
  have "fallback cf' tol' = None"
  proof (rule fallback_none)
    fix i assume "Suc i < 2200"
    then have "i < 2199" "i < 2200" by simp_all
    with h show "irr_f cf' (lows ! i) \<noteq> 0 \<and> \<not> irr_f cf' (lows ! i) * irr_f cf' (lows ! Suc i) < 0"
      by blast
  qed
  with h show "irr cf' guess' tol' maxiter' = None" by (simp add: irr_def)
qed

theorem irr_reports_absence_witness:
  "irr [1, 1] 0.1 (1 / 10 ^ 8) 200 = None \<and>
   newton [- 1000] (1 / 10 ^ 8) (nat 200) 0.1 = None \<and>
   irr [- 1000] 0.1 (1 / 10 ^ 8) 200 = None"
proof -
  have n: "newton [- 1000] (1 / 10 ^ 8) (nat 200) 0.1 = None"
  proof -
    have "newton [- 1000] (1 / 10 ^ 8) (Suc 199) 0.1 = None" by (simp only: newton_single) simp
    then show ?thesis by simp
  qed
  have g: "(\<forall>i<2200. irr_f [- 1000] (lows ! i) \<noteq> 0)
      \<and> (\<forall>i<2199. \<not> irr_f [- 1000] (lows ! i) * irr_f [- 1000] (lows ! Suc i) < 0)"
    by (simp add: irr_f_single)
  show ?thesis
    using irr_reports_absence[of "[1, 1]" "1 / 10 ^ 8" "0.1" 200 "[- 1000]" "1 / 10 ^ 8" 200 "0.1"] n g
    by simp
qed

theorem irr_tiny_positive_flow_returns_guess:
  "irr [1 / 10 ^ 9] 0.1 (1 / 10 ^ 8) 200 = Some 0.1"
proof -
  have "newton [1 / 10 ^ 9] (1 / 10 ^ 8) (Suc 199) 0.1 = Some 0.1"
    by (simp only: newton_single) simp
  then show ?thesis by (simp add: irr_def)
qed

text \<open>
  Claim C2. For a one-period sequence \<open>[c]\<close> the report has net value \<open>c\<close>; the
  rate of return is absent when \<open>\<bar>c\<bar>\<close> is at least the tolerance \<open>10\<^sup>-\<^sup>8\<close> (below it
  Newton accepts the default guess \<open>0.1\<close>); the benefit/cost ratio is absent when the
  discounted cost \<open>-c\<close> is below \<open>10\<^sup>-\<^sup>1\<^sup>2\<close>, and is \<open>0\<close> for a real outlay, whose
  benefits are zero and whose cost is not.
\<close>

theorem evaluate_project_single_period:
  "evaluate_project R [c] tmar False mc_nsim mc_sigma mc_seed g =
     Inr (\<lparr>out_cashflows = [c], out_tmar = tmar, out_van = c,
           out_tir = (if \<bar>c\<bar> < 1 / 10 ^ 8 then Some 0.1 else None),
           out_b_c = (if c \<le> - (1 / 10 ^ 12) then Some 0 else None),
           out_npv_profile = map (\<lambda>t. (t, Some c)) (linspace (max 0.0 (tmar - 0.2)) (tmar + 0.2) 41),
           out_montecarlo = None\<rparr>, g) \<and>
   (evaluate_project R [c] tmar montecarlo mc_nsim mc_sigma mc_seed g = Inr (out, g') \<longrightarrow>
      out_van out = c \<and>
      out_tir out = (if \<bar>c\<bar> < 1 / 10 ^ 8 then Some 0.1 else None) \<and>
      out_b_c out = (if c \<le> - (1 / 10 ^ 12) then Some 0 else None))"
proof -
  define tir_val where "tir_val = irr [c] 0.1 (1 / 10 ^ 8) 200"
  have i: "tir_val = (if \<bar>c\<bar> < 1 / 10 ^ 8 then Some 0.1 else None)"
    unfolding tir_val_def by (rule irr_single) simp_all
  show ?thesis
    unfolding evaluate_project_def tir_val_def[symmetric]
    by (auto simp: npv_single benefit_cost_ratio_single npv_profile_single
        i bind_r_def Let_def split: sum.splits)
qed

theorem evaluate_project_single_period_witness:
  "out_b_c (fst (projr (evaluate_project counting_rng [- 1000] 0.12 False 1000 0.15 None 0))) = Some 0 \<and>
   out_tir (fst (projr (evaluate_project counting_rng [- 1000] 0.12 False 1000 0.15 None 0))) = None \<and>
   out_van (fst (projr (evaluate_project counting_rng [- 1000] 0.12 False 1000 0.15 None 0))) = - 1000"
proof -
  let ?r = "evaluate_project counting_rng [- 1000] 0.12 False 1000 0.15 None 0"
  from evaluate_project_single_period[of counting_rng "- 1000" "0.12" 1000 "0.15" None 0 False]
  obtain out where e: "?r = Inr (out, 0)" by blast
  from evaluate_project_single_period[of counting_rng "- 1000" "0.12" 1000 "0.15" None 0 False out 0] e
  show ?thesis by simp
qed

theorem single_outlay_ratio_is_zero:
  "map_sum id (out_b_c \<circ> fst) (evaluate_project counting_rng [- 1000] 0.12 False 1000 0.15 None 0)
     = Inr (Some 0)"
  unfolding evaluate_project_def
  by (simp add: npv_single benefit_cost_ratio_single npv_profile_single bind_r_def Let_def)




text \<open>
  Claim C7. With a seed, \<^verbatim>\<open>monte_carlo_npv\<close> first replaces the generator state by the
  seeded one, so its whole outcome (summary with its sample sequence, or the exception)
  is the same whatever state the generator was in when the call was made; so is the
  outcome of \<^verbatim>\<open>evaluate_project\<close> with the simulation switched on.
\<close>

theorem seeded_simulation_repeatable:
  "monte_carlo_npv R cashflows rate n sigma (Some s) g1 =
     monte_carlo_npv R cashflows rate n sigma (Some s) g2 \<and>
   evaluate_project R cashflows tmar True mc_nsim mc_sigma (Some s) g1 =
     evaluate_project R cashflows tmar True mc_nsim mc_sigma (Some s) g2"
proof -
  have mc: "monte_carlo_npv R cashflows r k sg (Some s) g1 = monte_carlo_npv R cashflows r k sg (Some s) g2"
    for r k sg
    by (simp add: monte_carlo_npv_def)
  show ?thesis
    unfolding evaluate_project_def by (simp add: mc[of tmar mc_nsim mc_sigma] mc[of rate n sigma])
qed

lemma unseeded_simulation_depends_on_state:
  "monte_carlo_npv counting_rng [- 100, 110] 0.1 1 1 None 0 \<noteq>
   monte_carlo_npv counting_rng [- 100, 110] 0.1 1 1 None 1"
proof -
  have n: "nat 1 = Suc 0" by simp
  have a: "simulate counting_rng [- 100, 110] 0.1 1 (Suc 0) 0 = Inr ([Some 0], 1)"
    by (simp add: draw_shocks_def counting_rng_def bind_r_def npv_np_def zero_divisor_iff
        discounted_def enumerate_eq_zip upt_rec)
  have b: "simulate counting_rng [- 100, 110] 0.1 1 (Suc 0) 1 = Inr ([Some 100], 2)"
    by (simp add: draw_shocks_def counting_rng_def bind_r_def npv_np_def zero_divisor_iff
        discounted_def enumerate_eq_zip upt_rec)
  have k: "bind_r (Inr g) k = k g" for k :: "int \<Rightarrow> error + (summary \<times> int)" and g
    by (simp add: bind_r_def)
  show ?thesis
    unfolding monte_carlo_npv_def n option.case k a b
    by (simp add: bind_r_def percentile_def)
qed

text \<open>
  Claim C8. The trials that \<^verbatim>\<open>monte_carlo_npv\<close> runs are the trials as specified:
  in each one the period-0 cashflow enters the net value as it was given and only the
  later periods are multiplied by their draws. With a one-period sequence no draw is
  made, and for a trial count of at least 1 the simulator returns that many samples,
  each equal to the outlay, with mean and percentiles equal to it and deviation 0.
\<close>

theorem period_zero_unshocked:
  "simulate R base rate sigma k g = expected_trials R base rate sigma k g \<and>
   (monte_carlo_npv R base rate n sigma seed g = Inr (m, g') \<longrightarrow>
      (\<exists>g0. (case seed of None \<Rightarrow> Inr g | Some s \<Rightarrow> seed_state R s) = Inr g0 \<and>
            expected_trials R base rate sigma (nat n) g0 = Inr (mc_samples m, g'))) \<and>
   (0 < n \<and> (case seed of None \<Rightarrow> Inr g | Some s \<Rightarrow> seed_state R s) = Inr g0 \<longrightarrow>
      monte_carlo_npv R [c] rate n sigma seed g =
        Inr (\<lparr>mc_n_sim = n, mc_mean = Some c, mc_std = Some 0,
              mc_p5 = Some c, mc_p25 = Some c, mc_p50 = Some c, mc_p75 = Some c, mc_p95 = Some c,
              mc_samples = replicate (nat n) (Some c)\<rparr>, g0))"
  using simulate_expected_trials[of R base rate sigma k g]
    monte_carlo_npv_samples[of R base rate n sigma seed g m g']
    monte_carlo_npv_single[where n = n and seed = seed and g = g and R = R and ?g0.0 = g0
      and c = c and rate = rate and sigma = sigma]
  by blast

theorem period_zero_unshocked_witness:
  "expected_trials counting_rng [- 100, 110] 0.1 1 2 0 = Inr ([Some 0, Some 100], 2) \<and>
   shocked_scenario [- 100, 110] [2] = [- 100, 220] \<and>
   monte_carlo_npv counting_rng [- 1000] 0.1 3 0.15 None 0 =
     Inr (\<lparr>mc_n_sim = 3, mc_mean = Some (- 1000), mc_std = Some 0,
           mc_p5 = Some (- 1000), mc_p25 = Some (- 1000), mc_p50 = Some (- 1000),
           mc_p75 = Some (- 1000), mc_p95 = Some (- 1000),
           mc_samples = [Some (- 1000), Some (- 1000), Some (- 1000)]\<rparr>, 0)"
proof -
  from period_zero_unshocked[where R = counting_rng and base = "[- 100, 110]" and rate = "0.1"
      and n = 2 and sigma = 1 and seed = "Some 0" and g = 7 and k = 0 and c = 0 and ?g0.0 = 0
      and m = "\<lparr>mc_n_sim = 2, mc_mean = Some 50, mc_std = Some 50,
          mc_p5 = Some 5, mc_p25 = Some 25, mc_p50 = Some 50, mc_p75 = Some 75, mc_p95 = Some 95,
          mc_samples = [Some 0, Some 100]\<rparr>" and g' = 2] demo_run
  obtain s0 where "seed_state counting_rng 0 = Inr s0"
    and "expected_trials counting_rng [- 100, 110] 0.1 1 (nat 2) s0 = Inr ([Some 0, Some 100], 2)"
    by auto
  then have a: "expected_trials counting_rng [- 100, 110] 0.1 1 2 0 = Inr ([Some 0, Some 100], 2)"
    by (simp add: counting_rng_def)
  have r: "replicate (nat 3) (Some (- 1000 :: real)) = [Some (- 1000), Some (- 1000), Some (- 1000)]"
    by (simp add: numeral_3_eq_3)
  from period_zero_unshocked[where R = counting_rng and n = 3 and c = "- 1000" and rate = "0.1"
      and sigma = "0.15" and seed = None and g = 0 and ?g0.0 = 0] r
  have "monte_carlo_npv counting_rng [- 1000] 0.1 3 0.15 None 0 =
     Inr (\<lparr>mc_n_sim = 3, mc_mean = Some (- 1000), mc_std = Some 0,
           mc_p5 = Some (- 1000), mc_p25 = Some (- 1000), mc_p50 = Some (- 1000),
           mc_p75 = Some (- 1000), mc_p95 = Some (- 1000),
           mc_samples = [Some (- 1000), Some (- 1000), Some (- 1000)]\<rparr>, 0)" by simp
  with a show ?thesis by (simp add: shocked_scenario_def)
qed

theorem no_trials_raises:
  "monte_carlo_npv counting_rng [- 1000] 0.1 0 0.15 None 0 = Inl IndexError"
  by (rule monte_carlo_npv_no_trials[where ?g0.0 = 0]) simp_all

text \<open>
  Claim C1. The engine has no precondition checks. An empty cashflow sequence is
  computed through: \<^verbatim>\<open>npv\<close> returns 0, \<^verbatim>\<open>irr\<close> returns its guess and
  \<^verbatim>\<open>evaluate_project\<close> a report. A trial count of zero or less runs no trial and fails
  only when the percentiles index the empty sample array; \<open>sigma\<close> is handed to the
  generator as it is, and a call that draws nothing succeeds whatever \<open>sigma\<close> is.
\<close>

theorem no_boundary_checks:
  "npv rate [] = Inr 0 \<and>
   (0 < tol \<and> 0 < maxiter \<longrightarrow> irr [] guess tol maxiter = Some guess) \<and>
   evaluate_project R [] tmar False mc_nsim mc_sigma mc_seed g =
     Inr (\<lparr>out_cashflows = [], out_tmar = tmar, out_van = 0, out_tir = Some 0.1, out_b_c = None,
           out_npv_profile = map (\<lambda>t. (t, Some 0)) (linspace (max 0.0 (tmar - 0.2)) (tmar + 0.2) 41),
           out_montecarlo = None\<rparr>, g) \<and>
   (n \<le> 0 \<longrightarrow> monte_carlo_npv R cashflows rate n sigma None g = Inl IndexError) \<and>
   (0 < n \<longrightarrow> \<not> isl (monte_carlo_npv R [c] rate n sigma None g))"
proof -
  define tir_val where "tir_val = irr [] 0.1 (1 / 10 ^ 8) 200"
  have i: "tir_val = Some 0.1" unfolding tir_val_def by (rule irr_Nil) simp_all
  have "evaluate_project R [] tmar False mc_nsim mc_sigma mc_seed g =
     Inr (\<lparr>out_cashflows = [], out_tmar = tmar, out_van = 0, out_tir = Some 0.1, out_b_c = None,
           out_npv_profile = map (\<lambda>t. (t, Some 0)) (linspace (max 0.0 (tmar - 0.2)) (tmar + 0.2) 41),
           out_montecarlo = None\<rparr>, g)"
    unfolding evaluate_project_def tir_val_def[symmetric]
    by (simp add: npv_Nil benefit_cost_ratio_Nil npv_profile_Nil i bind_r_def Let_def)
  then show ?thesis
    using irr_Nil[of tol maxiter guess]
      monte_carlo_npv_no_trials[where n = n and seed = None and g = g and R = R and ?g0.0 = g
        and cashflows = cashflows and rate = rate and sigma = sigma]
      monte_carlo_npv_single[where n = n and seed = None and g = g and R = R and ?g0.0 = g
        and c = c and rate = rate and sigma = sigma]
    by (simp add: npv_Nil)
qed

theorem no_boundary_checks_witness:
  "irr [] 0.1 (1 / 10 ^ 8) 200 = Some 0.1 \<and>
   monte_carlo_npv counting_rng [- 1000, 500] 0.1 (- 5) 0.15 None 0 = Inl IndexError \<and>
   \<not> isl (monte_carlo_npv counting_rng [- 1000] 0.1 3 (- 1) None 0)"
  using no_boundary_checks[where tol = "1 / 10 ^ 8" and maxiter = 200 and guess = "0.1"
      and R = counting_rng and cashflows = "[- 1000, 500]" and rate = "0.1" and n = "- 5"
      and sigma = "0.15" and g = 0]
    no_boundary_checks[where R = counting_rng and c = "- 1000" and rate = "0.1" and n = 3
      and sigma = "- 1" and g = 0]
  by simp

theorem empty_cashflows_computed:
  "npv 0.10 [] = Inr 0 \<and> irr [] 0.1 (1 / 10 ^ 8) 200 = Some 0.1"
  using irr_Nil[of "1 / 10 ^ 8" 200 "0.1"] by (simp add: npv_Nil)

text \<open>
  Claim C9. On an empty collection \<^verbatim>\<open>arr.max()\<close> raises. On a non-empty one
  \<^verbatim>\<open>compare_projects\<close> returns exactly the expected entries (absent metrics as 0, each
  metric min-max normalised within \<open>[0, 1]\<close>, all 0 when the metric is the same
  everywhere, score the weighted sum with the weights as given), in descending order
  of score, entries of equal score in their input order.
\<close>

theorem compare_projects_ranking:
  assumes "projects \<noteq> []"
  shows "\<exists>ranking.
     compare_projects projects weights = Inr ranking \<and>
     mset ranking =
       mset (map (expected_entry (case weights of None \<Rightarrow> default_weights | Some w \<Rightarrow> w) projects)
              [0..<length projects]) \<and>
     sorted_wrt (\<lambda>a b. score b \<le> score a) ranking \<and>
     (\<forall>k. filter (\<lambda>e. score e = k) ranking =
          filter (\<lambda>e. score e = k)
            (map (expected_entry (case weights of None \<Rightarrow> default_weights | Some w \<Rightarrow> w) projects)
              [0..<length projects])) \<and>
     (\<forall>p key. p_metrics p key = None \<or> p_metrics p key = Some None \<longrightarrow> metric p key = 0) \<and>
     (\<forall>xs. \<forall>x \<in> set xs. 0 \<le> minmax xs x \<and> minmax xs x \<le> 1) \<and>
     (\<forall>xs x. Max (set xs) = Min (set xs) \<longrightarrow> minmax xs x = 0)"
proof -
  define entries where "entries =
    map (expected_entry (case weights of None \<Rightarrow> default_weights | Some w \<Rightarrow> w) projects)
      [0..<length projects]"
  define ranking where "ranking = sort_key (\<lambda>x. - score x) entries"
  have r: "compare_projects projects weights = Inr ranking"
    unfolding ranking_def entries_def by (rule compare_projects_eq[OF assms])
  have m: "mset ranking = mset entries" by (simp add: ranking_def)
  have "sorted (map (\<lambda>x. - score x) ranking)" by (simp add: ranking_def)
  then have s: "sorted_wrt (\<lambda>a b. score b \<le> score a) ranking" by (simp add: sorted_map)
  have st: "filter (\<lambda>e. score e = k) ranking = filter (\<lambda>e. score e = k) entries" for k
  proof -
    have "filter (\<lambda>e. - score e = - k) ranking = filter (\<lambda>e. - score e = - k) entries"
      unfolding ranking_def by (rule sort_key_stable)
    then show ?thesis by simp
  qed
  have a: "\<forall>p key. p_metrics p key = None \<or> p_metrics p key = Some None \<longrightarrow> metric p key = 0"
    by (auto simp: metric_def)
  have b: "\<forall>xs. \<forall>x \<in> set xs. 0 \<le> minmax xs x \<and> minmax xs x \<le> 1"
    using minmax_unit_interval by blast
  have c: "\<forall>xs x. Max (set xs) = Min (set xs) \<longrightarrow> minmax xs x = 0"
    by (simp add: minmax_def)
  show ?thesis using r m s st a b c unfolding entries_def by blast
qed

theorem compare_projects_empty:
  "compare_projects [] None = Inl ValueError"
  by (simp add: compare_projects_def safe_normalize_Nil bind_r_def)


lemma scenario_e_entries:
  "map (expected_entry default_weights
         [\<lparr>p_name = Some ''A'', p_metrics = [''van'' \<mapsto> Some 1000, ''tir'' \<mapsto> Some 0.20, ''b_c'' \<mapsto> Some 1.5]\<rparr>,
          \<lparr>p_name = None, p_metrics = [''van'' \<mapsto> Some 500, ''tir'' \<mapsto> None]\<rparr>])
       [0..<length
         [\<lparr>p_name = Some ''A'', p_metrics = [''van'' \<mapsto> Some 1000, ''tir'' \<mapsto> Some 0.20, ''b_c'' \<mapsto> Some 1.5]\<rparr>,
          \<lparr>p_name = None, p_metrics = [''van'' \<mapsto> Some 500, ''tir'' \<mapsto> None]\<rparr>]]
   = [\<lparr>name = ''A'', van = 1000, tir = 0.20, b_c = 1.5, score = 1\<rparr>,
      \<lparr>name = ''proj_1'', van = 500, tir = 0, b_c = 0, score = 0\<rparr>]"
  by (simp add: expected_entry_def metric_def weight_def default_weights_def minmax_def upt_rec)

theorem compare_projects_ranking_witness:
  "\<exists>ranking.
     compare_projects
       [\<lparr>p_name = Some ''A'', p_metrics = [''van'' \<mapsto> Some 1000, ''tir'' \<mapsto> Some 0.20, ''b_c'' \<mapsto> Some 1.5]\<rparr>,
        \<lparr>p_name = None, p_metrics = [''van'' \<mapsto> Some 500, ''tir'' \<mapsto> None]\<rparr>] None = Inr ranking \<and>
     mset ranking = mset [\<lparr>name = ''A'', van = 1000, tir = 0.20, b_c = 1.5, score = 1\<rparr>,
                          \<lparr>name = ''proj_1'', van = 500, tir = 0, b_c = 0, score = 0\<rparr>] \<and>
     sorted_wrt (\<lambda>a b. score b \<le> score a) ranking"
proof -
  have ne: "[\<lparr>p_name = Some ''A'', p_metrics = [''van'' \<mapsto> Some 1000, ''tir'' \<mapsto> Some 0.20, ''b_c'' \<mapsto> Some 1.5]\<rparr>,
        \<lparr>p_name = None, p_metrics = [''van'' \<mapsto> Some 500, ''tir'' \<mapsto> None]\<rparr>] \<noteq> []" by simp
  from compare_projects_ranking[OF ne, of None] show ?thesis
    unfolding option.case scenario_e_entries by blast
qed

lemma scenario_e_ranking:
  "compare_projects
       [\<lparr>p_name = Some ''A'', p_metrics = [''van'' \<mapsto> Some 1000, ''tir'' \<mapsto> Some 0.20, ''b_c'' \<mapsto> Some 1.5]\<rparr>,
        \<lparr>p_name = None, p_metrics = [''van'' \<mapsto> Some 500, ''tir'' \<mapsto> None]\<rparr>] None
   = Inr [\<lparr>name = ''A'', van = 1000, tir = 0.20, b_c = 1.5, score = 1\<rparr>,
          \<lparr>name = ''proj_1'', van = 500, tir = 0, b_c = 0, score = 0\<rparr>]"
proof -
  have ne: "[\<lparr>p_name = Some ''A'', p_metrics = [''van'' \<mapsto> Some 1000, ''tir'' \<mapsto> Some 0.20, ''b_c'' \<mapsto> Some 1.5]\<rparr>,
        \<lparr>p_name = None, p_metrics = [''van'' \<mapsto> Some 500, ''tir'' \<mapsto> None]\<rparr>] \<noteq> []" by simp
  show ?thesis
    unfolding compare_projects_eq[OF ne] option.case scenario_e_entries by simp
qed

end
